theory Spec2Isabelle
  imports Main "HOL-Library.AList"
begin

section \<open>Values, documents and the outside world\<close>

text \<open>
  The script \<^verbatim>\<open>scripts/migrate_metadata.py\<close> handles JSON payloads and MongoDB
  documents. Both are Python values; the ones that occur are modelled by \<open>json\<close>,
  where \<open>JNull\<close> is Python's \<^verbatim>\<open>None\<close> and a dictionary is an association list in
  insertion order. Numbers are kept as integers.
\<close>

datatype json =
    JNull
  | JBool bool
  | JNum int
  | JStr string
  | JArr "json list"
  | JObj "(string \<times> json) list"

type_synonym doc = "(string \<times> json) list"

text \<open>Python truth value of a payload, as tested by \<^verbatim>\<open>if metadata:\<close>.\<close>

fun truthy :: "json \<Rightarrow> bool" where
  "truthy JNull = False"
| "truthy (JBool b) = b"
| "truthy (JNum n) = (n \<noteq> 0)"
| "truthy (JStr s) = (s \<noteq> [])"
| "truthy (JArr xs) = (xs \<noteq> [])"
| "truthy (JObj kvs) = (kvs \<noteq> [])"

text \<open>
  Truth value of an environment variable read with \<^verbatim>\<open>os.getenv\<close>: a missing variable
  is \<^verbatim>\<open>None\<close>, and \<^verbatim>\<open>not v\<close> holds for \<^verbatim>\<open>None\<close> and for the empty string.
\<close>

fun is_set :: "string option \<Rightarrow> bool" where
  "is_set None = False"
| "is_set (Some s) = (s \<noteq> [])"

datatype error =
    ValueError string
  | AttributeError
  | TypeError
  | StorageError

text \<open>
  What \<^verbatim>\<open>session.get\<close> yields: a transport fault (an exception of the HTTP client), or
  a response with its status and the outcome of \<^verbatim>\<open>response.json()\<close>, which is \<open>None\<close>
  when decoding raises.
\<close>

datatype http_outcome =
    Transport_fault
  | Response nat "json option"

datatype event =
    HttpGet string
  | Sleep nat

datatype images_field = Absent | Null | Urls "string list"

record car =
  images :: images_field
  other_fields :: doc

text \<open>
  Everything the script reads from its surroundings and does not define itself:
  the two credentials, the path component computed by \<^verbatim>\<open>urllib.parse.urlparse\<close>
  (or the exception it raises), the answer of the remote API to the n-th request of the
  run, the readings of \<^verbatim>\<open>time.time()\<close>, and whether the storage refuses a document.
\<close>

record env =
  CLOUDFLARE_ACCOUNT_ID :: "string option"
  CLOUDFLARE_API_TOKEN :: "string option"
  urlparse_path :: "string \<Rightarrow> error + string"
  session_get :: "nat \<Rightarrow> string \<Rightarrow> (string \<times> string) list \<Rightarrow> http_outcome"
  time_time :: "nat \<Rightarrow> int"
  insert_raises :: "doc \<Rightarrow> bool"

text \<open>
  The state the script acts on: the two collections of the database, the trace of
  network calls and sleeps, and the number of clock readings taken so far.
\<close>

record world =
  cars :: "car list"
  image_metadata :: "doc list"
  trace :: "event list"
  clock_reads :: nat

definition BATCH_SIZE :: nat where
  "BATCH_SIZE = 3"

definition DELAY :: nat where
  "DELAY = 1"

section \<open>URL Parser\<close>

text \<open>Python's \<^verbatim>\<open>str.split(sep)\<close> for a one-character separator.\<close>

fun split_on :: "char \<Rightarrow> string \<Rightarrow> string list" where
  "split_on c [] = [[]]"
| "split_on c (x # xs) =
     (let ps = split_on c xs
      in if x = c then [] # ps else (x # hd ps) # tl ps)"

text \<open>
  \<^verbatim>\<open>extract_image_id\<close>: the segment at index 4 of the path, \<open>None\<close> when there are fewer
  than five segments or when parsing raised (the exception is logged and swallowed).
\<close>

definition extract_image_id :: "env \<Rightarrow> string \<Rightarrow> string option" where
  "extract_image_id env url =
     (case urlparse_path env url of
        Inl e \<Rightarrow> None
      | Inr path \<Rightarrow>
          (let parts = split_on CHR ''/'' path
           in if length parts \<ge> 5 then Some (parts ! 4) else None))"

section \<open>Metadata Fetcher\<close>

text \<open>\<^verbatim>\<open>d.get(key, default)\<close>; a value that is no dictionary has no \<^verbatim>\<open>get\<close>.\<close>

fun py_get :: "json \<Rightarrow> string \<Rightarrow> json \<Rightarrow> error + json" where
  "py_get (JObj kvs) key dflt =
     (case map_of kvs key of None \<Rightarrow> Inr dflt | Some v \<Rightarrow> Inr v)"
| "py_get v key dflt = Inl AttributeError"

definition api_url :: "string \<Rightarrow> string \<Rightarrow> string" where
  "api_url account image_id =
     ''https://api.cloudflare.com/client/v4/accounts/'' @ account @ ''/images/v1/'' @ image_id"

definition api_headers :: "string \<Rightarrow> (string \<times> string) list" where
  "api_headers token =
     [(''Authorization'', ''Bearer '' @ token), (''Content-Type'', ''application/json'')]"

text \<open>The URLs requested in a trace, in order.\<close>

fun requested :: "event list \<Rightarrow> string list" where
  "requested [] = []"
| "requested (HttpGet u # tr) = u # requested tr"
| "requested (Sleep n # tr) = requested tr"

definition requests_sent :: "event list \<Rightarrow> nat" where
  "requests_sent tr = length (requested tr)"

definition emit :: "event \<Rightarrow> world \<Rightarrow> world" where
  "emit e w = w\<lparr>trace := trace w @ [e]\<rparr>"

text \<open>
  The body of the \<^verbatim>\<open>if response.status == 200\<close> branch: every exception raised in it
  is caught by the enclosing handler and becomes \<^verbatim>\<open>None\<close>; a false success flag falls
  through to the end of the function, which returns \<^verbatim>\<open>None\<close> as well.
\<close>

definition read_metadata :: "json option \<Rightarrow> json" where
  "read_metadata body =
     (case body of
        None \<Rightarrow> JNull
      | Some data \<Rightarrow>
          (case py_get data ''success'' JNull of
             Inl e \<Rightarrow> JNull
           | Inr flag \<Rightarrow>
               if truthy flag then
                 (case py_get data ''result'' (JObj []) of
                    Inl e \<Rightarrow> JNull
                  | Inr result \<Rightarrow>
                      (case py_get result ''metadata'' (JObj []) of
                         Inl e \<Rightarrow> JNull
                       | Inr metadata \<Rightarrow> metadata))
               else JNull))"

definition get_cloudflare_metadata :: "env \<Rightarrow> string \<Rightarrow> world \<Rightarrow> (error + json) \<times> world" where
  "get_cloudflare_metadata env image_id w =
     (if \<not> is_set (CLOUDFLARE_ACCOUNT_ID env) \<or> \<not> is_set (CLOUDFLARE_API_TOKEN env)
      then (Inl (ValueError ''Cloudflare credentials not set''), w)
      else
        (let url = api_url (the (CLOUDFLARE_ACCOUNT_ID env)) image_id;
             headers = api_headers (the (CLOUDFLARE_API_TOKEN env));
             answer = session_get env (requests_sent (trace w)) url headers;
             w1 = emit (HttpGet url) w
         in case answer of
              Transport_fault \<Rightarrow> (Inr JNull, w1)
            | Response status body \<Rightarrow>
                if status = 200 then (Inr (read_metadata body), w1)
                else if status = 429 then (Inr JNull, emit (Sleep 5) w1)
                else (Inr JNull, w1)))"

section \<open>Batch Processor\<close>

text \<open>
  The collection \<^verbatim>\<open>image_metadata\<close> is a list of documents, used through two calls:
  \<^verbatim>\<open>find_one({'imageId': image_id})\<close> gives the first document whose field
  \<^verbatim>\<open>imageId\<close> is the identifier, and \<^verbatim>\<open>insert_one\<close> appends a document or raises.

  \<^verbatim>\<open>process_batch\<close> awaits both calls. Its parameter \<^verbatim>\<open>db\<close> is a database handle, and
  what awaiting does depends on the handle: the calls of an asynchronous driver return
  awaitables, and awaiting gives their result; the calls of pymongo's \<^verbatim>\<open>MongoClient\<close>
  do their work at once and return a plain value (a dictionary, \<^verbatim>\<open>None\<close>, a result
  object), and awaiting such a value raises \<^verbatim>\<open>TypeError\<close>.
\<close>

datatype client = Awaitable | Synchronous

fun await :: "client \<Rightarrow> 'a \<Rightarrow> error + 'a" where
  "await Awaitable v = Inr v"
| "await Synchronous v = Inl TypeError"

definition find_one :: "doc list \<Rightarrow> string \<Rightarrow> doc option" where
  "find_one coll image_id = find (\<lambda>d. map_of d ''imageId'' = Some (JStr image_id)) coll"

text \<open>
  First loop of \<^verbatim>\<open>process_batch\<close>: the identifiers for which a fetch task is created.
  The collection is only read here. The awaited lookup stands outside any handler: an
  exception of the \<^verbatim>\<open>await\<close> ends the loop and the batch.
\<close>

fun collect_tasks :: "env \<Rightarrow> client \<Rightarrow> doc list \<Rightarrow> string list \<Rightarrow> error + string list" where
  "collect_tasks env db coll [] = Inr []"
| "collect_tasks env db coll (image_url # batch) =
     (case extract_image_id env image_url of
        None \<Rightarrow> collect_tasks env db coll batch
      | Some image_id \<Rightarrow>
          if image_id = [] then collect_tasks env db coll batch
          else (case await db (find_one coll image_id) of
                  Inl e \<Rightarrow> Inl e
                | Inr (Some existing) \<Rightarrow> collect_tasks env db coll batch
                | Inr None \<Rightarrow>
                    (case collect_tasks env db coll batch of
                       Inl e \<Rightarrow> Inl e
                     | Inr tasks \<Rightarrow> Inr (image_id # tasks))))"

text \<open>
  \<^verbatim>\<open>asyncio.gather(*tasks)\<close>: the results in the order of the tasks, or the first
  exception. The tasks run interleaved; the trace lists their events task by task, in the
  order of creation. The one exception a task can raise is that of the credentials
  check, which comes before any effect of the task and is the same for every task.
\<close>

fun gather :: "env \<Rightarrow> string list \<Rightarrow> world \<Rightarrow> (error + json list) \<times> world" where
  "gather env [] w = (Inr [], w)"
| "gather env (image_id # tasks) w =
     (case get_cloudflare_metadata env image_id w of
        (Inl e, w1) \<Rightarrow> (Inl e, w1)
      | (Inr metadata, w1) \<Rightarrow>
          (case gather env tasks w1 of
             (Inl e, w2) \<Rightarrow> (Inl e, w2)
           | (Inr results, w2) \<Rightarrow> (Inr (metadata # results), w2)))"

text \<open>
  The dictionary display
  \<^verbatim>\<open>{'imageId': image_id, **metadata, 'createdAt': t1, 'updatedAt': t2}\<close>:
  later keys overwrite earlier ones in place; spreading a value that is no mapping
  raises.
\<close>

definition new_document :: "json \<Rightarrow> json \<Rightarrow> int \<Rightarrow> int \<Rightarrow> error + doc" where
  "new_document image_id metadata t1 t2 =
     (case metadata of
        JObj kvs \<Rightarrow>
          Inr (AList.update ''updatedAt'' (JNum t2)
                (AList.update ''createdAt'' (JNum t1)
                  (fold (\<lambda>(k, v). AList.update k v) kvs [(''imageId'', image_id)])))
      | _ \<Rightarrow> Inl TypeError)"

definition insert_one :: "env \<Rightarrow> doc \<Rightarrow> world \<Rightarrow> (error + unit) \<times> world" where
  "insert_one env d w =
     (if insert_raises env d then (Inl StorageError, w)
      else (Inr (), w\<lparr>image_metadata := image_metadata w @ [d]\<rparr>))"

text \<open>
  One round of the second loop for a truthy result. The two clock readings are taken
  after the spread, so a spread that raises reads no clock. The insert and its
  \<^verbatim>\<open>await\<close> stand inside the handler: an exception of the spread, of the insert or of
  the \<^verbatim>\<open>await\<close> is logged and swallowed, and the state is the one reached when it was
  raised.
\<close>

definition store_one :: "env \<Rightarrow> client \<Rightarrow> string \<Rightarrow> json \<Rightarrow> world \<Rightarrow> world" where
  "store_one env db image_url metadata w =
     (let image_id = (case extract_image_id env image_url of None \<Rightarrow> JNull | Some i \<Rightarrow> JStr i)
      in case new_document image_id metadata
                (time_time env (clock_reads w)) (time_time env (clock_reads w + 1)) of
           Inl e \<Rightarrow> w
         | Inr d \<Rightarrow>
             (case insert_one env d (w\<lparr>clock_reads := clock_reads w + 2\<rparr>) of
                (Inl e, w1) \<Rightarrow> w1
              | (Inr r, w1) \<Rightarrow> (case await db r of Inl e \<Rightarrow> w1 | Inr stored \<Rightarrow> w1)))"

fun store_results :: "env \<Rightarrow> client \<Rightarrow> (string \<times> json) list \<Rightarrow> world \<Rightarrow> world" where
  "store_results env db [] w = w"
| "store_results env db ((image_url, metadata) # rest) w =
     (if truthy metadata then store_results env db rest (store_one env db image_url metadata w)
      else store_results env db rest w)"

definition process_batch :: "env \<Rightarrow> client \<Rightarrow> string list \<Rightarrow> world \<Rightarrow> (error + unit) \<times> world" where
  "process_batch env db batch w =
     (case collect_tasks env db (image_metadata w) batch of
        Inl e \<Rightarrow> (Inl e, w)
      | Inr tasks \<Rightarrow>
          if tasks = [] then (Inr (), w)
          else (case gather env tasks w of
                  (Inl e, w1) \<Rightarrow> (Inl e, w1)
                | (Inr results, w1) \<Rightarrow>
                    (Inr (), store_results env db (zip batch results) w1)))"

section \<open>Migration Driver\<close>

text \<open>
  The query \<^verbatim>\<open>{'images': {'$exists': True, '$ne': []}}\<close> and the expression
  \<^verbatim>\<open>car.get('images', []) or []\<close>.
\<close>

fun has_images :: "car \<Rightarrow> bool" where
  "has_images c = (case images c of Absent \<Rightarrow> False | Null \<Rightarrow> True | Urls us \<Rightarrow> us \<noteq> [])"

fun car_urls :: "car \<Rightarrow> string list" where
  "car_urls c = (case images c of Urls us \<Rightarrow> us | _ \<Rightarrow> [])"

text \<open>
  \<^verbatim>\<open>list(set([...]))\<close>: the distinct URLs in the order in which the set iterates them.
  That order is not fixed by the language and may change from one process to the next;
  it is given by a ranking \<open>rank\<close> of the strings, a parameter of the run.
\<close>

definition all_image_urls :: "(string \<Rightarrow> nat) \<Rightarrow> world \<Rightarrow> string list" where
  "all_image_urls rank w =
     sort_key rank (remdups (concat (map car_urls (filter has_images (cars w)))))"

text \<open>The loop over the batches (lines 121 to 132), for a database handle \<open>db\<close>.\<close>

function batches_loop ::
    "env \<Rightarrow> client \<Rightarrow> string list \<Rightarrow> nat \<Rightarrow> world \<Rightarrow> (error + unit) \<times> world" where
  "batches_loop env db urls i w =
     (if i < length urls then
        (case process_batch env db (take BATCH_SIZE (drop i urls)) w of
           (Inl e, w1) \<Rightarrow> (Inl e, w1)
         | (Inr u, w1) \<Rightarrow>
             batches_loop env db urls (i + BATCH_SIZE)
               (if i + BATCH_SIZE < length urls then emit (Sleep DELAY) w1 else w1))
      else (Inr (), w))"
  by pat_completeness auto
termination
  by (relation "measure (\<lambda>(env, db, urls, i, w). length urls - i)") (auto simp: BATCH_SIZE_def)

declare batches_loop.simps [simp del]

text \<open>
  \<^verbatim>\<open>migrate_metadata\<close> makes its own handle, \<^verbatim>\<open>MongoClient(MONGODB_URI)[DB_NAME]\<close> of
  pymongo, which is synchronous, and runs the loop on it. An exception of the loop is
  caught, logged and not raised again; what remains is the state reached.
\<close>

definition MongoClient :: client where
  "MongoClient = Synchronous"

definition migrate_metadata :: "env \<Rightarrow> (string \<Rightarrow> nat) \<Rightarrow> world \<Rightarrow> world" where
  "migrate_metadata env rank w =
     snd (batches_loop env MongoClient (all_image_urls rank w) 0 w)"

section \<open>Auxiliary notions\<close>

text \<open>The value and the sleeps of one fetch, as functions of the answer.\<close>

definition fetch_value :: "http_outcome \<Rightarrow> json" where
  "fetch_value answer =
     (case answer of
        Transport_fault \<Rightarrow> JNull
      | Response status body \<Rightarrow> if status = 200 then read_metadata body else JNull)"

definition fetch_sleeps :: "http_outcome \<Rightarrow> event list" where
  "fetch_sleeps answer =
     (case answer of
        Transport_fault \<Rightarrow> []
      | Response status body \<Rightarrow> if status = 429 then [Sleep 5] else [])"

text \<open>Python's \<^verbatim>\<open>sep.join(parts)\<close>, the inverse of \<open>split_on\<close>.\<close>

fun join_with :: "char \<Rightarrow> string list \<Rightarrow> string" where
  "join_with c [] = []"
| "join_with c [s] = s"
| "join_with c (s # t # ts) = s @ c # join_with c (t # ts)"

text \<open>
  The driver's schedule in the words of its contract: the working set is cut into
  consecutive batches of the batch size; the batches are processed one after the other,
  with the delay after each batch that is not the last.
\<close>

function consecutive_batches :: "nat \<Rightarrow> 'a list \<Rightarrow> 'a list list" where
  "consecutive_batches n xs =
     (if n = 0 \<or> xs = [] then [] else take n xs # consecutive_batches n (drop n xs))"
  by pat_completeness auto
termination
  by (relation "measure (\<lambda>(n, xs). length xs)") auto

declare consecutive_batches.simps [simp del]

fun sequential_run ::
    "env \<Rightarrow> client \<Rightarrow> string list list \<Rightarrow> world \<Rightarrow> (error + unit) \<times> world" where
  "sequential_run env db [] w = (Inr (), w)"
| "sequential_run env db (batch # later) w =
     (case process_batch env db batch w of
        (Inl e, w1) \<Rightarrow> (Inl e, w1)
      | (Inr u, w1) \<Rightarrow>
          if later = [] then (Inr (), w1)
          else sequential_run env db later (emit (Sleep DELAY) w1))"

section \<open>A concrete environment\<close>

text \<open>
  A small setting on which the definitions are evaluated. Image URLs are written as bare
  absolute paths, for which \<^verbatim>\<open>urlparse\<close> gives the string itself as the path; the
  one other string is an address with an unclosed bracket, on which \<^verbatim>\<open>urlparse\<close>
  raises. The API knows two images, is rate limited on a third, answers a fourth without
  metadata and a fifth with a null result, and answers 404 otherwise.
\<close>

definition example_urlparse :: "string \<Rightarrow> error + string" where
  "example_urlparse url =
     (if url = ''http://[::1/x'' then Inl (ValueError ''Invalid IPv6 URL'') else Inr url)"

definition ok_response :: "json \<Rightarrow> http_outcome" where
  "ok_response metadata =
     Response 200
       (Some (JObj [(''success'', JBool True), (''result'', JObj [(''metadata'', metadata)])]))"

definition example_api :: "string \<Rightarrow> http_outcome" where
  "example_api url =
     (if url = api_url ''acct'' ''img1'' then ok_response (JObj [(''title'', JStr ''one'')])
      else if url = api_url ''acct'' ''img2'' then ok_response (JObj [(''title'', JStr ''two'')])
      else if url = api_url ''acct'' ''img3'' then Response 429 None
      else if url = api_url ''acct'' ''img4''
        then Response 200 (Some (JObj [(''success'', JBool True), (''result'', JObj [])]))
      else if url = api_url ''acct'' ''img5''
        then Response 200 (Some (JObj [(''success'', JBool True), (''result'', JNull)]))
      else Response 404 None)"

definition example_env :: env where
  "example_env =
     \<lparr>CLOUDFLARE_ACCOUNT_ID = Some ''acct'', CLOUDFLARE_API_TOKEN = Some ''tok'',
      urlparse_path = example_urlparse,
      session_get = (\<lambda>n url headers. example_api url),
      time_time = (\<lambda>n. 1700000000 + int n),
      insert_raises = (\<lambda>d. False)\<rparr>"

definition delivery_url :: "string \<Rightarrow> string" where
  "delivery_url image_id = ''/cdn-cgi/imagedelivery/acct/'' @ image_id @ ''/public''"

definition empty_db :: world where
  "empty_db = \<lparr>cars = [], image_metadata = [], trace = [], clock_reads = 0\<rparr>"

definition seven_urls :: "string list" where
  "seven_urls = map delivery_url [''img1'', ''img2'', ''img3'', ''img4'', ''img5'', ''img6'', ''img7'']"

section \<open>The answer to a fetch\<close>

text \<open>
  What a fetch of an identifier yields when the credentials are set and the API answers a
  request the same way each time.
\<close>

definition answer_for :: "env \<Rightarrow> string \<Rightarrow> json" where
  "answer_for env image_id =
     fetch_value (session_get env 0
       (api_url (the (CLOUDFLARE_ACCOUNT_ID env)) image_id)
       (api_headers (the (CLOUDFLARE_API_TOKEN env))))"

section \<open>Concrete datasets\<close>

text \<open>
  A dataset of four parent records sharing one image, one of them with a null image list
  and one without the field; a dataset of one parent record with two images, for both of
  which the API has metadata; a dataset of one parent record with seven images; and the
  ranking under which a set iterates in order of arrival.
\<close>

definition sample_db :: world where
  "sample_db =
     \<lparr>cars =
        [\<lparr>images = Urls [delivery_url ''img1'', delivery_url ''img2'', delivery_url ''img3''],
          other_fields = [(''make'', JStr ''Porsche'')]\<rparr>,
         \<lparr>images = Urls [delivery_url ''img2'', delivery_url ''img4''],
          other_fields = [(''make'', JStr ''Lancia'')]\<rparr>,
         \<lparr>images = Null, other_fields = []\<rparr>,
         \<lparr>images = Absent, other_fields = []\<rparr>],
      image_metadata = [], trace = [], clock_reads = 0\<rparr>"

definition two_images_db :: world where
  "two_images_db =
     \<lparr>cars = [\<lparr>images = Urls [delivery_url ''img1'', delivery_url ''img2''], other_fields = []\<rparr>],
      image_metadata = [], trace = [], clock_reads = 0\<rparr>"

definition seven_images_db :: world where
  "seven_images_db =
     \<lparr>cars = [\<lparr>images = Urls seven_urls, other_fields = []\<rparr>],
      image_metadata = [], trace = [], clock_reads = 0\<rparr>"

definition arrival_order :: "string \<Rightarrow> nat" where
  "arrival_order url = 0"

section \<open>Properties\<close>

subsection \<open>The fetcher and the fan-out\<close>

lemma emit_fields [simp]:
  "trace (emit e w) = trace w @ [e]"
  "cars (emit e w) = cars w"
  "image_metadata (emit e w) = image_metadata w"
  "clock_reads (emit e w) = clock_reads w"
  by (simp_all add: emit_def)

lemma requested_append [simp]: "requested (xs @ ys) = requested xs @ requested ys"
  by (induction xs rule: requested.induct) auto

lemma fetch_unset:
  "\<not> is_set (CLOUDFLARE_ACCOUNT_ID env) \<or> \<not> is_set (CLOUDFLARE_API_TOKEN env) \<Longrightarrow>
   get_cloudflare_metadata env image_id w = (Inl (ValueError ''Cloudflare credentials not set''), w)"
  by (simp add: get_cloudflare_metadata_def)

lemma fetch_set:
  assumes "CLOUDFLARE_ACCOUNT_ID env = Some a" "a \<noteq> []"
      and "CLOUDFLARE_API_TOKEN env = Some t" "t \<noteq> []"
  shows "get_cloudflare_metadata env image_id w =
     (let answer = session_get env (requests_sent (trace w)) (api_url a image_id) (api_headers t)
      in (Inr (fetch_value answer),
          w\<lparr>trace := trace w @ HttpGet (api_url a image_id) # fetch_sleeps answer\<rparr>))"
  using assms
  by (auto simp: get_cloudflare_metadata_def fetch_value_def fetch_sleeps_def emit_def Let_def
      split: http_outcome.splits)

lemma is_set_conv: "is_set v \<longleftrightarrow> (\<exists>s. v = Some s \<and> s \<noteq> [])"
  by (cases v) auto

lemma fetch_frame:
  assumes "get_cloudflare_metadata env image_id w = (r, w')"
  shows "cars w' = cars w" "image_metadata w' = image_metadata w" "clock_reads w' = clock_reads w"
  using assms
  by (auto simp: get_cloudflare_metadata_def Let_def split: if_splits http_outcome.splits)

lemma gather_frame:
  "gather env tasks w = (r, w') \<Longrightarrow>
   cars w' = cars w \<and> image_metadata w' = image_metadata w \<and> clock_reads w' = clock_reads w"
proof (induction tasks arbitrary: w r w')
  case Nil
  then show ?case by simp
next
  case (Cons i tasks)
  obtain r1 w1 where f: "get_cloudflare_metadata env i w = (r1, w1)"
    by (cases "get_cloudflare_metadata env i w")
  note fr = fetch_frame [OF f]
  show ?case
  proof (cases r1)
    case (Inl e)
    with Cons.prems f fr show ?thesis by simp
  next
    case (Inr m)
    obtain r2 w2 where g: "gather env tasks w1 = (r2, w2)"
      by (cases "gather env tasks w1")
    from Cons.IH [OF g] fr have "cars w2 = cars w \<and> image_metadata w2 = image_metadata w \<and> clock_reads w2 = clock_reads w"
      by simp
    with Cons.prems f g Inr show ?thesis
      by (cases r2) auto
  qed
qed

lemma gather_unset:
  "\<not> is_set (CLOUDFLARE_ACCOUNT_ID env) \<or> \<not> is_set (CLOUDFLARE_API_TOKEN env) \<Longrightarrow> tasks \<noteq> [] \<Longrightarrow>
   gather env tasks w = (Inl (ValueError ''Cloudflare credentials not set''), w)"
  by (cases tasks) (simp_all add: fetch_unset)

text \<open>With the credentials set, every task sends its request and gathers a result.\<close>

lemma gather_set:
  assumes "CLOUDFLARE_ACCOUNT_ID env = Some a" "a \<noteq> []"
      and "CLOUDFLARE_API_TOKEN env = Some t" "t \<noteq> []"
  shows "\<exists>results new. gather env tasks w = (Inr results, w\<lparr>trace := trace w @ new\<rparr>)
           \<and> length results = length tasks
           \<and> requested new = map (api_url a) tasks
           \<and> (\<forall>n. Sleep n \<in> set new \<longrightarrow> n = 5)"
proof (induction tasks arbitrary: w)
  case Nil
  show ?case by (rule exI [of _ "[]"], rule exI [of _ "[]"]) simp
next
  case (Cons i tasks)
  define answer where "answer = session_get env (requests_sent (trace w)) (api_url a i) (api_headers t)"
  define w1 where "w1 = w\<lparr>trace := trace w @ HttpGet (api_url a i) # fetch_sleeps answer\<rparr>"
  have f: "get_cloudflare_metadata env i w = (Inr (fetch_value answer), w1)"
    using fetch_set [OF assms, of i w] by (simp add: answer_def w1_def Let_def)
  from Cons.IH [of w1] obtain results new where
    g: "gather env tasks w1 = (Inr results, w1\<lparr>trace := trace w1 @ new\<rparr>)"
    and l: "length results = length tasks"
    and rq: "requested new = map (api_url a) tasks"
    and sl: "\<forall>n. Sleep n \<in> set new \<longrightarrow> n = 5"
    by blast
  have sl1: "\<forall>n. Sleep n \<in> set (fetch_sleeps answer) \<longrightarrow> n = 5"
    by (auto simp: fetch_sleeps_def split: http_outcome.splits if_splits)
  have rq1: "requested (fetch_sleeps answer) = []"
    by (auto simp: fetch_sleeps_def split: http_outcome.splits)
  let ?new = "HttpGet (api_url a i) # fetch_sleeps answer @ new"
  have "gather env (i # tasks) w = (Inr (fetch_value answer # results), w\<lparr>trace := trace w @ ?new\<rparr>)"
    using f g by (simp add: w1_def)
  moreover have "length (fetch_value answer # results) = length (i # tasks)"
    using l by simp
  moreover have "requested ?new = map (api_url a) (i # tasks)"
    using rq rq1 by simp
  moreover have "\<forall>n. Sleep n \<in> set ?new \<longrightarrow> n = 5"
    using sl sl1 by auto
  ultimately show ?case by blast
qed

subsection \<open>The batch processor\<close>

lemma insert_one_frame:
  "cars (snd (insert_one env d w)) = cars w"
  "trace (snd (insert_one env d w)) = trace w"
  by (simp_all add: insert_one_def)

lemma store_one_frame:
  "cars (store_one env db u m w) = cars w"
  "trace (store_one env db u m w) = trace w"
  by (simp_all add: store_one_def insert_one_def Let_def split: sum.splits)

lemma store_one_grows:
  "\<exists>new. image_metadata (store_one env db u m w) = image_metadata w @ new \<and> length new \<le> 1"
  by (simp add: store_one_def insert_one_def Let_def split: sum.splits)

text \<open>The handle makes no difference to what the second loop leaves in the collection.\<close>

lemma store_one_any_client: "store_one env db u m w = store_one env Awaitable u m w"
  by (simp add: store_one_def insert_one_def Let_def split: sum.splits)

lemma store_results_frame:
  "cars (store_results env db ps w) = cars w \<and> trace (store_results env db ps w) = trace w"
  by (induction env db ps w rule: store_results.induct) (simp_all add: store_one_frame)

lemma store_results_grows:
  "\<exists>new. image_metadata (store_results env db ps w) = image_metadata w @ new \<and> length new \<le> length ps"
proof (induction env db ps w rule: store_results.induct)
  case (1 env db w)
  show ?case by simp
next
  case (2 env db u m rest w)
  show ?case
  proof (cases "truthy m")
    case True
    from store_one_grows [of env db u m w] obtain n1 where
      a: "image_metadata (store_one env db u m w) = image_metadata w @ n1" "length n1 \<le> 1" by blast
    from 2(1) [OF True] obtain n2 where
      b: "image_metadata (store_results env db rest (store_one env db u m w))
            = image_metadata (store_one env db u m w) @ n2" "length n2 \<le> length rest" by blast
    have "image_metadata (store_results env db ((u, m) # rest) w) = image_metadata w @ (n1 @ n2)"
      using True a b by simp
    moreover have "length (n1 @ n2) \<le> length ((u, m) # rest)"
      using a b by simp
    ultimately show ?thesis by blast
  next
    case False
    from 2(2) [OF False] obtain n2 where
      b: "image_metadata (store_results env db rest w) = image_metadata w @ n2" "length n2 \<le> length rest"
      by blast
    then have "image_metadata (store_results env db ((u, m) # rest) w) = image_metadata w @ n2"
      "length n2 \<le> length ((u, m) # rest)"
      using False by simp_all
    then show ?thesis by blast
  qed
qed

text \<open>The tasks come from URLs of the batch that have an identifier without a record.\<close>

lemma await_Inr [simp]: "await db v = Inr x \<longleftrightarrow> db = Awaitable \<and> x = v"
  by (cases db) auto

lemma collect_tasks_origin:
  "collect_tasks env db coll batch = Inr tasks \<Longrightarrow> i \<in> set tasks \<Longrightarrow>
   i \<noteq> [] \<and> find_one coll i = None \<and> (\<exists>u \<in> set batch. extract_image_id env u = Some i)"
  by (induction batch arbitrary: tasks)
    (auto split: option.splits if_splits sum.splits)

lemma collect_tasks_count:
  "collect_tasks env db coll batch = Inr tasks \<Longrightarrow>
   count_list tasks i \<le> length (filter (\<lambda>u. extract_image_id env u = Some i) batch)"
  by (induction batch arbitrary: tasks)
    (auto split: option.splits if_splits sum.splits)

lemma length_collect_tasks:
  "collect_tasks env db coll batch = Inr tasks \<Longrightarrow> length tasks \<le> length batch"
  by (induction batch arbitrary: tasks)
    (auto split: option.splits if_splits sum.splits)

text \<open>On a synchronous handle the first loop creates no task: it raises at the first lookup.\<close>

lemma collect_tasks_synchronous:
  "collect_tasks env Synchronous coll batch = Inr tasks \<Longrightarrow> tasks = []"
  by (induction batch arbitrary: tasks) (auto split: option.splits if_splits)

lemma collect_tasks_synchronous_raises:
  "\<exists>u\<in>set batch. \<exists>i. extract_image_id env u = Some i \<and> i \<noteq> [] \<Longrightarrow>
   collect_tasks env Synchronous coll batch = Inl TypeError"
  by (induction batch) (auto split: option.splits)

lemma requested_count:
  "count_list tr (HttpGet u) = count_list (requested tr) u"
  by (induction tr rule: requested.induct) auto

lemma api_url_inject [simp]: "api_url a i = api_url a j \<longleftrightarrow> i = j"
  by (simp add: api_url_def)

lemma count_list_map_inj:
  "inj f \<Longrightarrow> count_list (map f xs) (f x) = count_list xs x"
  by (induction xs) (auto dest: injD)

text \<open>What a batch does to the state, whatever the handle, the credentials and the answers.\<close>

lemma process_batch_effect:
  assumes "process_batch env db batch w = (r, w')"
  shows "\<exists>new docs. cars w' = cars w
     \<and> trace w' = trace w @ new
     \<and> image_metadata w' = image_metadata w @ docs
     \<and> (\<forall>n. Sleep n \<in> set new \<longrightarrow> n = 5)
     \<and> (requested new = [] \<or>
         (\<exists>a tasks. CLOUDFLARE_ACCOUNT_ID env = Some a
            \<and> collect_tasks env db (image_metadata w) batch = Inr tasks
            \<and> requested new = map (api_url a) tasks))"
proof (cases "collect_tasks env db (image_metadata w) batch")
  case (Inl e)
  with assms have "w' = w"
    by (simp add: process_batch_def)
  then show ?thesis
    by (intro exI [of _ "[]"]) simp
next
  case (Inr tasks)
  show ?thesis
  proof (cases "tasks = []")
    case True
    with Inr assms have "w' = w"
      by (simp add: process_batch_def)
    then show ?thesis
      by (intro exI [of _ "[]"]) simp
  next
    case ne: False
    show ?thesis
    proof (cases "is_set (CLOUDFLARE_ACCOUNT_ID env) \<and> is_set (CLOUDFLARE_API_TOKEN env)")
      case False
      then have "w' = w"
        using ne Inr assms gather_unset [of env tasks w]
        by (auto simp: process_batch_def)
      then show ?thesis
        by (intro exI [of _ "[]"]) simp
    next
      case True
      then obtain a t where c: "CLOUDFLARE_ACCOUNT_ID env = Some a" "a \<noteq> []"
        "CLOUDFLARE_API_TOKEN env = Some t" "t \<noteq> []"
        by (auto simp: is_set_conv)
      from gather_set [OF c, of tasks w] obtain results new where
        g: "gather env tasks w = (Inr results, w\<lparr>trace := trace w @ new\<rparr>)"
        and rq: "requested new = map (api_url a) tasks"
        and sl: "\<forall>n. Sleep n \<in> set new \<longrightarrow> n = 5"
        by blast
      let ?w1 = "w\<lparr>trace := trace w @ new\<rparr>"
      have pb: "w' = store_results env db (zip batch results) ?w1"
        using ne g Inr assms by (simp add: process_batch_def)
      from store_results_grows [of env db "zip batch results" ?w1] obtain docs where
        d: "image_metadata w' = image_metadata w @ docs" unfolding pb by auto
      have fr: "cars w' = cars w" "trace w' = trace w @ new"
        unfolding pb using store_results_frame [of env db "zip batch results" ?w1] by simp_all
      from d fr rq sl c Inr show ?thesis
        by (intro exI [of _ new] exI [of _ docs]) auto
    qed
  qed
qed

text \<open>A batch on a synchronous handle changes nothing: it raises or has no task.\<close>

lemma process_batch_synchronous:
  "snd (process_batch env Synchronous batch w) = w"
proof (cases "collect_tasks env Synchronous (image_metadata w) batch")
  case (Inl e)
  then show ?thesis by (simp add: process_batch_def)
next
  case (Inr tasks)
  with collect_tasks_synchronous [OF Inr] show ?thesis
    by (simp add: process_batch_def)
qed

subsection \<open>The driver's loop\<close>

lemma batches_loop_done:
  "\<not> i < length urls \<Longrightarrow> batches_loop env db urls i w = (Inr (), w)"
  by (simp add: batches_loop.simps)

lemma batches_loop_abort:
  "i < length urls \<Longrightarrow> process_batch env db (take BATCH_SIZE (drop i urls)) w = (Inl e, w1) \<Longrightarrow>
   batches_loop env db urls i w = (Inl e, w1)"
  by (subst batches_loop.simps) simp

lemma batches_loop_step:
  "i < length urls \<Longrightarrow> process_batch env db (take BATCH_SIZE (drop i urls)) w = (Inr u, w1) \<Longrightarrow>
   batches_loop env db urls i w =
     batches_loop env db urls (i + BATCH_SIZE)
       (if i + BATCH_SIZE < length urls then emit (Sleep DELAY) w1 else w1)"
  by (subst batches_loop.simps) simp

lemma drop_batch: "drop i urls = take n (drop i urls) @ drop (i + n) urls"
  by (metis add.commute append_take_drop_id drop_drop)

text \<open>The run only appends: to the trace and to the metadata collection.\<close>

lemma batches_loop_frame:
  "\<exists>new docs. cars (snd (batches_loop env db urls i w)) = cars w
     \<and> trace (snd (batches_loop env db urls i w)) = trace w @ new
     \<and> image_metadata (snd (batches_loop env db urls i w)) = image_metadata w @ docs"
proof (induction "length urls - i" arbitrary: i w rule: less_induct)
  case less
  show ?case
  proof (cases "i < length urls")
    case False
    then show ?thesis by (simp add: batches_loop_done)
  next
    case True
    obtain r w1 where pb: "process_batch env db (take BATCH_SIZE (drop i urls)) w = (r, w1)"
      by (cases "process_batch env db (take BATCH_SIZE (drop i urls)) w")
    from process_batch_effect [OF pb] obtain n1 d1 where
      e1: "cars w1 = cars w" "trace w1 = trace w @ n1" "image_metadata w1 = image_metadata w @ d1"
      by blast
    show ?thesis
    proof (cases r)
      case (Inl e)
      with batches_loop_abort [OF True, of env db w e w1] pb e1 show ?thesis by simp
    next
      case (Inr u)
      define w2 where "w2 = (if i + BATCH_SIZE < length urls then emit (Sleep DELAY) w1 else w1)"
      have st: "batches_loop env db urls i w = batches_loop env db urls (i + BATCH_SIZE) w2"
        using batches_loop_step [OF True, of env db w u w1] pb Inr by (simp add: w2_def)
      have "length urls - (i + BATCH_SIZE) < length urls - i"
        using True by (simp add: BATCH_SIZE_def)
      from less [OF this, of w2] obtain n2 d2 where
        e2: "cars (snd (batches_loop env db urls (i + BATCH_SIZE) w2)) = cars w2"
          "trace (snd (batches_loop env db urls (i + BATCH_SIZE) w2)) = trace w2 @ n2"
          "image_metadata (snd (batches_loop env db urls (i + BATCH_SIZE) w2)) = image_metadata w2 @ d2"
        by blast
      have e12: "cars w2 = cars w" "\<exists>n. trace w2 = trace w @ n"
        "image_metadata w2 = image_metadata w @ d1"
        using e1 by (auto simp: w2_def)
      then obtain n where "trace w2 = trace w @ n" by blast
      with e2 e12 st show ?thesis by simp
    qed
  qed
qed

text \<open>Requests for one identifier against URLs carrying that identifier.\<close>

lemma batches_loop_requests:
  assumes "CLOUDFLARE_ACCOUNT_ID env = Some a"
  shows "\<exists>new. trace (snd (batches_loop env db urls i w)) = trace w @ new
     \<and> count_list (requested new) (api_url a x)
          \<le> length (filter (\<lambda>u. extract_image_id env u = Some x) (drop i urls))"
proof (induction "length urls - i" arbitrary: i w rule: less_induct)
  case less
  show ?case
  proof (cases "i < length urls")
    case False
    then show ?thesis by (simp add: batches_loop_done)
  next
    case True
    let ?batch = "take BATCH_SIZE (drop i urls)"
    let ?P = "\<lambda>u. extract_image_id env u = Some x"
    obtain r w1 where pb: "process_batch env db ?batch w = (r, w1)"
      by (cases "process_batch env db ?batch w")
    from process_batch_effect [OF pb] obtain n1 where
      e1: "trace w1 = trace w @ n1"
      and rq: "requested n1 = [] \<or>
         (\<exists>a tasks. CLOUDFLARE_ACCOUNT_ID env = Some a
            \<and> collect_tasks env db (image_metadata w) ?batch = Inr tasks
            \<and> requested n1 = map (api_url a) tasks)"
      by (elim exE conjE)
    have inj: "inj (api_url a)" by (simp add: inj_def)
    have c1: "count_list (requested n1) (api_url a x) \<le> length (filter ?P ?batch)"
    proof (cases "requested n1 = []")
      case True
      then show ?thesis by simp
    next
      case False
      with rq obtain a' tasks where
        a': "CLOUDFLARE_ACCOUNT_ID env = Some a'"
        and tasks: "collect_tasks env db (image_metadata w) ?batch = Inr tasks"
        and "requested n1 = map (api_url a') tasks"
        by (elim disjE exE conjE) simp_all
      moreover from a' assms have "a' = a" by simp
      ultimately have "requested n1 = map (api_url a) tasks" by simp
      then show ?thesis
        using collect_tasks_count [OF tasks, of x]
        by (simp add: count_list_map_inj [OF inj])
    qed
    have split: "length (filter ?P (drop i urls))
        = length (filter ?P ?batch) + length (filter ?P (drop (i + BATCH_SIZE) urls))"
    proof -
      have "drop i urls = ?batch @ drop (i + BATCH_SIZE) urls"
        by (rule drop_batch)
      then have "filter ?P (drop i urls) = filter ?P ?batch @ filter ?P (drop (i + BATCH_SIZE) urls)"
        by (metis filter_append)
      then show ?thesis by simp
    qed
    show ?thesis
    proof (cases r)
      case (Inl e)
      with batches_loop_abort [OF True, of env db w e w1] pb e1 c1 split show ?thesis by simp
    next
      case (Inr u)
      define w2 where "w2 = (if i + BATCH_SIZE < length urls then emit (Sleep DELAY) w1 else w1)"
      have st: "batches_loop env db urls i w = batches_loop env db urls (i + BATCH_SIZE) w2"
        using batches_loop_step [OF True, of env db w u w1] pb Inr by (simp add: w2_def)
      have "length urls - (i + BATCH_SIZE) < length urls - i"
        using True by (simp add: BATCH_SIZE_def)
      from less [OF this, of w2] obtain n2 where
        e2: "trace (snd (batches_loop env db urls (i + BATCH_SIZE) w2)) = trace w2 @ n2"
        and c2: "count_list (requested n2) (api_url a x)
                   \<le> length (filter ?P (drop (i + BATCH_SIZE) urls))"
        by blast
      obtain s where s: "trace w2 = trace w @ n1 @ s" "requested s = []"
        using e1 by (cases "i + BATCH_SIZE < length urls") (auto simp: w2_def)
      have "trace (snd (batches_loop env db urls i w)) = trace w @ (n1 @ s @ n2)"
        using st e2 s by simp
      moreover have "count_list (requested (n1 @ s @ n2)) (api_url a x)
          \<le> length (filter ?P (drop i urls))"
        using c1 c2 s split by simp
      ultimately show ?thesis by blast
    qed
  qed
qed

subsection \<open>Splitting a path\<close>

lemma split_on_not_Nil: "split_on c s \<noteq> []"
  by (induction s) (auto simp: Let_def)

lemma split_on_plain: "c \<notin> set s \<Longrightarrow> split_on c s = [s]"
  by (induction s) (auto simp: Let_def)

lemma split_on_segment: "c \<notin> set s \<Longrightarrow> split_on c (s @ c # rest) = s # split_on c rest"
  by (induction s) (auto simp: Let_def)

lemma split_on_join_with:
  "segs \<noteq> [] \<Longrightarrow> \<forall>s\<in>set segs. c \<notin> set s \<Longrightarrow> split_on c (join_with c segs) = segs"
  by (induction c segs rule: join_with.induct) (auto simp: split_on_plain split_on_segment)

text \<open>Every string is the join of its segments, and no segment holds the separator.\<close>

lemma split_on_segments_clean: "s \<in> set (split_on c str) \<Longrightarrow> c \<notin> set s"
proof (induction str arbitrary: s)
  case Nil
  then show ?case by simp
next
  case (Cons x xs)
  obtain p ps where ps: "split_on c xs = p # ps"
    using split_on_not_Nil [of c xs] by (cases "split_on c xs") auto
  have "c \<notin> set p" "\<forall>q\<in>set ps. c \<notin> set q"
    using Cons.IH ps by auto
  with Cons.prems ps show ?case
    by (auto simp: Let_def split: if_splits)
qed

lemma join_with_split_on: "join_with c (split_on c str) = str"
proof (induction str)
  case Nil
  show ?case by simp
next
  case (Cons x xs)
  obtain p ps where ps: "split_on c xs = p # ps"
    using split_on_not_Nil [of c xs] by (cases "split_on c xs") auto
  with Cons.IH show ?case
    by (cases ps) (auto simp: Let_def)
qed

lemma requested_member: "HttpGet u \<in> set tr \<longleftrightarrow> u \<in> set (requested tr)"
  by (induction tr rule: requested.induct) auto

lemma distinct_all_image_urls: "distinct (all_image_urls rank w)"
  by (simp add: all_image_urls_def)

lemma set_all_image_urls:
  "set (all_image_urls rank w) = set (concat (map car_urls (filter has_images (cars w))))"
  by (simp add: all_image_urls_def)

lemma migrate_metadata_trace:
  "\<exists>new. trace (migrate_metadata env rank w) = trace w @ new"
  using batches_loop_frame [of env MongoClient "all_image_urls rank w" 0 w]
  by (auto simp: migrate_metadata_def)

text \<open>A batch sends at most one request for each of its URLs.\<close>

lemma process_batch_requests_bounded:
  assumes "process_batch env db batch w = (r, w')"
  shows "length (requested (drop (length (trace w)) (trace w'))) \<le> length batch"
proof -
  from process_batch_effect [OF assms] obtain new where
    t: "trace w' = trace w @ new"
    and rq: "requested new = [] \<or>
         (\<exists>a tasks. CLOUDFLARE_ACCOUNT_ID env = Some a
            \<and> collect_tasks env db (image_metadata w) batch = Inr tasks
            \<and> requested new = map (api_url a) tasks)"
    by (elim exE conjE)
  from rq have "length (requested new) \<le> length batch"
    by (auto dest: length_collect_tasks)
  with t show ?thesis by simp
qed

lemma store_results_skip:
  "\<not> truthy m \<Longrightarrow> store_results env db ((u, m) # rest) w = store_results env db rest w"
  by simp

text \<open>A result that is present but is no mapping: the lookup raises and the fetch yields nothing.\<close>

lemma read_metadata_result_not_mapping:
  assumes "map_of data ''success'' = Some flag" and "truthy flag"
      and "map_of data ''result'' = Some r" and "\<forall>kvs. r \<noteq> JObj kvs"
  shows "read_metadata (Some (JObj data)) = JNull"
  using assms by (cases r) (simp_all add: read_metadata_def)

subsection \<open>The schedule of the batches\<close>

lemma consecutive_batches_Nil [simp]: "consecutive_batches n [] = []"
  by (simp add: consecutive_batches.simps)

lemma consecutive_batches_Cons:
  "0 < n \<Longrightarrow> xs \<noteq> [] \<Longrightarrow>
   consecutive_batches n xs = take n xs # consecutive_batches n (drop n xs)"
  by (subst consecutive_batches.simps) simp

lemma batches_loop_schedule_from:
  "batches_loop env db urls i w
     = sequential_run env db (consecutive_batches BATCH_SIZE (drop i urls)) w"
proof (induction "length urls - i" arbitrary: i w rule: less_induct)
  case less
  show ?case
  proof (cases "i < length urls")
    case False
    then show ?thesis by (simp add: batches_loop_done)
  next
    case True
    let ?batch = "take BATCH_SIZE (drop i urls)"
    have cb: "consecutive_batches BATCH_SIZE (drop i urls)
        = ?batch # consecutive_batches BATCH_SIZE (drop (i + BATCH_SIZE) urls)"
      using True consecutive_batches_Cons [of BATCH_SIZE "drop i urls"]
      by (simp add: BATCH_SIZE_def add.commute)
    have last: "consecutive_batches BATCH_SIZE (drop (i + BATCH_SIZE) urls) = []
        \<longleftrightarrow> \<not> i + BATCH_SIZE < length urls"
    proof (cases "i + BATCH_SIZE < length urls")
      case True
      then show ?thesis
        using consecutive_batches_Cons [of BATCH_SIZE "drop (i + BATCH_SIZE) urls"]
        by (simp add: BATCH_SIZE_def)
    next
      case False
      then show ?thesis by simp
    qed
    obtain r w1 where pb: "process_batch env db ?batch w = (r, w1)"
      by (cases "process_batch env db ?batch w")
    show ?thesis
    proof (cases r)
      case (Inl e)
      with batches_loop_abort [OF True, of env db w e w1] pb cb show ?thesis by simp
    next
      case (Inr u)
      define w2 where "w2 = (if i + BATCH_SIZE < length urls then emit (Sleep DELAY) w1 else w1)"
      have st: "batches_loop env db urls i w = batches_loop env db urls (i + BATCH_SIZE) w2"
        using batches_loop_step [OF True, of env db w u w1] pb Inr by (simp add: w2_def)
      have "length urls - (i + BATCH_SIZE) < length urls - i"
        using True by (simp add: BATCH_SIZE_def)
      from less [OF this, of w2]
      have ih: "batches_loop env db urls (i + BATCH_SIZE) w2
          = sequential_run env db (consecutive_batches BATCH_SIZE (drop (i + BATCH_SIZE) urls)) w2" .
      show ?thesis
      proof (cases "i + BATCH_SIZE < length urls")
        case True
        with st ih cb pb Inr last show ?thesis by (simp add: w2_def)
      next
        case False
        then have "batches_loop env db urls (i + BATCH_SIZE) w2 = (Inr (), w1)"
          by (simp add: batches_loop_done w2_def)
        with st cb pb Inr last False show ?thesis by simp
      qed
    qed
  qed
qed

text \<open>A batch adds no sleep of the delay's length to the trace: its sleeps last five seconds.\<close>

lemma process_batch_no_delay:
  assumes "process_batch env db batch w = (r, w')"
  shows "count_list (trace w') (Sleep DELAY) = count_list (trace w) (Sleep DELAY)"
proof -
  from process_batch_effect [OF assms] obtain new where
    t: "trace w' = trace w @ new" and sl: "\<forall>n. Sleep n \<in> set new \<longrightarrow> n = 5"
    by blast
  from sl have "Sleep DELAY \<notin> set new"
    by (auto simp: DELAY_def)
  then have "count_list new (Sleep DELAY) = 0"
    by (simp add: count_list_0_iff)
  with t show ?thesis by simp
qed

lemma sequential_run_delays:
  "fst (sequential_run env db batches w) = Inr () \<Longrightarrow>
   count_list (trace (snd (sequential_run env db batches w))) (Sleep DELAY)
     = count_list (trace w) (Sleep DELAY) + (length batches - 1)"
proof (induction batches arbitrary: w)
  case Nil
  then show ?case by simp
next
  case (Cons b later)
  obtain r w1 where pb: "process_batch env db b w = (r, w1)"
    by (cases "process_batch env db b w")
  note nd = process_batch_no_delay [OF pb]
  show ?case
  proof (cases r)
    case (Inl e)
    with Cons.prems pb show ?thesis by simp
  next
    case (Inr u)
    show ?thesis
    proof (cases "later = []")
      case True
      with pb Inr nd show ?thesis by simp
    next
      case False
      have run: "sequential_run env db (b # later) w = sequential_run env db later (emit (Sleep DELAY) w1)"
        using pb Inr False by simp
      with Cons.prems have "fst (sequential_run env db later (emit (Sleep DELAY) w1)) = Inr ()"
        by simp
      from Cons.IH [OF this] run nd False show ?thesis
        by (cases later) simp_all
    qed
  qed
qed

lemma consecutive_batches_seven:
  assumes "length urls = 7"
  shows "map length (consecutive_batches BATCH_SIZE urls) = [3, 3, 1]"
proof -
  from assms obtain a b c d e f g where "urls = [a, b, c, d, e, f, g]"
    by (auto simp: length_Suc_conv eval_nat_numeral)
  then show ?thesis
    by (simp add: consecutive_batches_Cons BATCH_SIZE_def)
qed

subsection \<open>The driver on its synchronous handle\<close>

text \<open>
  On a synchronous handle the loop sends no request and stores nothing: each batch either
  has no URL with an identifier, or raises at its first lookup.
\<close>

lemma batches_loop_synchronous:
  "image_metadata (snd (batches_loop env Synchronous urls i w)) = image_metadata w
   \<and> requested (trace (snd (batches_loop env Synchronous urls i w))) = requested (trace w)"
proof (induction "length urls - i" arbitrary: i w rule: less_induct)
  case less
  show ?case
  proof (cases "i < length urls")
    case False
    then show ?thesis by (simp add: batches_loop_done)
  next
    case True
    let ?batch = "take BATCH_SIZE (drop i urls)"
    obtain r w1 where pb: "process_batch env Synchronous ?batch w = (r, w1)"
      by (cases "process_batch env Synchronous ?batch w")
    with process_batch_synchronous [of env ?batch w] have w1: "w1 = w" by simp
    show ?thesis
    proof (cases r)
      case (Inl e)
      with batches_loop_abort [OF True, of env Synchronous w e w1] pb w1 show ?thesis by simp
    next
      case (Inr u)
      define w2 where "w2 = (if i + BATCH_SIZE < length urls then emit (Sleep DELAY) w1 else w1)"
      have st: "batches_loop env Synchronous urls i w
          = batches_loop env Synchronous urls (i + BATCH_SIZE) w2"
        using batches_loop_step [OF True, of env Synchronous w u w1] pb Inr by (simp add: w2_def)
      have same: "image_metadata w2 = image_metadata w" "requested (trace w2) = requested (trace w)"
        using w1 by (simp_all add: w2_def)
      have "length urls - (i + BATCH_SIZE) < length urls - i"
        using True by (simp add: BATCH_SIZE_def)
      from less [OF this, of w2] st same show ?thesis by simp
    qed
  qed
qed

lemma batches_loop_synchronous_aborts:
  assumes "i < length urls"
      and "\<exists>u\<in>set (take BATCH_SIZE (drop i urls)). \<exists>x. extract_image_id env u = Some x \<and> x \<noteq> []"
  shows "batches_loop env Synchronous urls i w = (Inl TypeError, w)"
proof -
  have "process_batch env Synchronous (take BATCH_SIZE (drop i urls)) w = (Inl TypeError, w)"
    using collect_tasks_synchronous_raises [OF assms(2), of "image_metadata w"]
    by (simp add: process_batch_def)
  from batches_loop_abort [OF assms(1) this] show ?thesis .
qed

lemma migrate_metadata_stores_nothing:
  "image_metadata (migrate_metadata env rank w) = image_metadata w
   \<and> requested (trace (migrate_metadata env rank w)) = requested (trace w)"
  using batches_loop_synchronous [of env "all_image_urls rank w" 0 w]
  by (simp add: migrate_metadata_def MongoClient_def)

text \<open>
  On any handle, a loop that no batch ends by an exception sleeps the delay once between
  two batches, and not after the last.
\<close>

lemma batches_loop_delays:
  assumes "fst (batches_loop env db urls 0 w) = Inr ()"
  shows "count_list (trace (snd (batches_loop env db urls 0 w))) (Sleep DELAY)
       = count_list (trace w) (Sleep DELAY) + (length (consecutive_batches BATCH_SIZE urls) - 1)"
  using assms sequential_run_delays [of env db "consecutive_batches BATCH_SIZE urls" w]
    batches_loop_schedule_from [of env db urls 0 w]
  by simp

section \<open>The properties of the specification\<close>

text \<open>
  C4. The identifier is the segment at index 4 of the path when the path has at least
  five segments; with fewer segments, or when parsing raises, there is no identifier.
  The function has a result in every case: nothing is raised to the caller.
\<close>

theorem extract_image_id_fifth_segment:
  assumes "segs \<noteq> []" and "\<forall>s\<in>set segs. CHR ''/'' \<notin> set s"
  shows "(urlparse_path env url = Inr (join_with CHR ''/'' segs) \<longrightarrow>
           extract_image_id env url = (if 5 \<le> length segs then Some (segs ! 4) else None))
       \<and> (urlparse_path env url = Inl e \<longrightarrow> extract_image_id env url = None)"
  using assms by (auto simp: extract_image_id_def split_on_join_with)

theorem extract_image_id_fifth_segment_witness:
  "extract_image_id example_env (delivery_url ''img1'') = Some ''img1''
   \<and> extract_image_id example_env ''/cdn-cgi/imagedelivery/acct'' = None
   \<and> extract_image_id example_env ''http://[::1/x'' = None"
  using extract_image_id_fifth_segment
          [of "['''', ''cdn-cgi'', ''imagedelivery'', ''acct'', ''img1'', ''public'']"
              example_env "delivery_url ''img1''" "ValueError ''Invalid IPv6 URL''"]
        extract_image_id_fifth_segment
          [of "['''', ''cdn-cgi'', ''imagedelivery'', ''acct'']"
              example_env "''/cdn-cgi/imagedelivery/acct''" "ValueError ''Invalid IPv6 URL''"]
        extract_image_id_fifth_segment
          [of "['''']" example_env "''http://[::1/x''" "ValueError ''Invalid IPv6 URL''"]
  by (simp add: example_env_def example_urlparse_def delivery_url_def)

text \<open>
  C8. With the account identifier or the token unset (missing, or empty, which the
  script's test \<^verbatim>\<open>not value\<close> treats alike), a fetch raises and leaves the state as it
  was: no request has been sent. With both set, a fetch returns.
\<close>

theorem get_cloudflare_metadata_credentials:
  "(\<not> is_set (CLOUDFLARE_ACCOUNT_ID env) \<or> \<not> is_set (CLOUDFLARE_API_TOKEN env) \<longrightarrow>
      get_cloudflare_metadata env image_id w
        = (Inl (ValueError ''Cloudflare credentials not set''), w))
   \<and> (is_set (CLOUDFLARE_ACCOUNT_ID env) \<and> is_set (CLOUDFLARE_API_TOKEN env) \<longrightarrow>
      (\<exists>metadata. fst (get_cloudflare_metadata env image_id w) = Inr metadata))"
  by (auto simp: get_cloudflare_metadata_def Let_def split: http_outcome.splits)

theorem get_cloudflare_metadata_credentials_witness:
  "get_cloudflare_metadata (example_env\<lparr>CLOUDFLARE_API_TOKEN := None\<rparr>) ''img1'' empty_db
     = (Inl (ValueError ''Cloudflare credentials not set''), empty_db)
   \<and> trace (snd (get_cloudflare_metadata (example_env\<lparr>CLOUDFLARE_ACCOUNT_ID := None\<rparr>) ''img1'' empty_db)) = []
   \<and> (\<exists>metadata. fst (get_cloudflare_metadata example_env ''img1'' empty_db) = Inr metadata)"
  using get_cloudflare_metadata_credentials [of "example_env\<lparr>CLOUDFLARE_API_TOKEN := None\<rparr>" "''img1''" empty_db]
        get_cloudflare_metadata_credentials [of "example_env\<lparr>CLOUDFLARE_ACCOUNT_ID := None\<rparr>" "''img1''" empty_db]
        get_cloudflare_metadata_credentials [of example_env "''img1''" empty_db]
  by (simp add: example_env_def empty_db_def)

text \<open>
  C7. An identifier that has a record when the batch starts (the collection does not
  change while the tasks are collected) gets no fetch task, and the batch sends no
  request for it, whatever the database handle.
\<close>

theorem existing_record_not_fetched:
  assumes "find_one (image_metadata w) image_id \<noteq> None"
  shows "(\<forall>tasks. collect_tasks env db (image_metadata w) batch = Inr tasks \<longrightarrow>
            image_id \<notin> set tasks)
       \<and> (\<forall>a. CLOUDFLARE_ACCOUNT_ID env = Some a \<longrightarrow>
            HttpGet (api_url a image_id)
              \<notin> set (drop (length (trace w)) (trace (snd (process_batch env db batch w)))))"
proof -
  have no_task: "image_id \<notin> set tasks"
    if "collect_tasks env db (image_metadata w) batch = Inr tasks" for tasks
    using assms collect_tasks_origin [OF that, of image_id] by auto
  obtain r w' where pb: "process_batch env db batch w = (r, w')"
    by (cases "process_batch env db batch w")
  from process_batch_effect [OF pb] obtain new where
    t: "trace w' = trace w @ new"
    and rq: "requested new = [] \<or>
         (\<exists>a tasks. CLOUDFLARE_ACCOUNT_ID env = Some a
            \<and> collect_tasks env db (image_metadata w) batch = Inr tasks
            \<and> requested new = map (api_url a) tasks)"
    by (elim exE conjE)
  have "api_url a image_id \<notin> set (requested new)"
    if a: "CLOUDFLARE_ACCOUNT_ID env = Some a" for a
  proof (cases "requested new = []")
    case True
    then show ?thesis by simp
  next
    case False
    with rq obtain a' tasks where "CLOUDFLARE_ACCOUNT_ID env = Some a'"
      and tasks: "collect_tasks env db (image_metadata w) batch = Inr tasks"
      and new: "requested new = map (api_url a') tasks"
      by (elim disjE exE conjE) simp_all
    with a have "requested new = map (api_url a) tasks" by simp
    with no_task [OF tasks] show ?thesis by auto
  qed
  with t pb no_task show ?thesis
    by (simp add: requested_member)
qed

theorem existing_record_not_fetched_witness:
  "HttpGet (api_url ''acct'' ''img1'')
     \<notin> set (trace (snd (process_batch example_env Awaitable
                [delivery_url ''img1'', delivery_url ''img2'']
                (empty_db\<lparr>image_metadata := [[(''imageId'', JStr ''img1'')]]\<rparr>))))"
  using existing_record_not_fetched
          [of "empty_db\<lparr>image_metadata := [[(''imageId'', JStr ''img1'')]]\<rparr>" "''img1''"
              example_env Awaitable "[delivery_url ''img1'', delivery_url ''img2'']"]
  by (simp add: find_one_def empty_db_def example_env_def)

text \<open>
  C5. On a 429 answer the fetcher sends its one request, sleeps five seconds and returns
  nothing. A run sends, for an identifier, at most as many requests as there are URLs
  with that identifier in its working set, and every URL is in the working set once: no
  URL is fetched a second time, whatever the answer to its fetch was. The bound holds of
  the driver's run and of the loop on any database handle.
\<close>

theorem rate_limited_fetch_not_retried:
  assumes "CLOUDFLARE_ACCOUNT_ID env = Some a" and "a \<noteq> []"
      and "CLOUDFLARE_API_TOKEN env = Some t" and "t \<noteq> []"
  shows "(session_get env (requests_sent (trace w)) (api_url a image_id) (api_headers t)
            = Response 429 body \<longrightarrow>
          get_cloudflare_metadata env image_id w
            = (Inr JNull, emit (Sleep 5) (emit (HttpGet (api_url a image_id)) w)))
       \<and> count_list (drop (length (trace w)) (trace (migrate_metadata env rank w)))
            (HttpGet (api_url a image_id))
          \<le> length (filter (\<lambda>u. extract_image_id env u = Some image_id) (all_image_urls rank w))
       \<and> distinct (all_image_urls rank w)
       \<and> count_list (drop (length (trace w))
                      (trace (snd (batches_loop env db (all_image_urls rank w) 0 w))))
            (HttpGet (api_url a image_id))
          \<le> length (filter (\<lambda>u. extract_image_id env u = Some image_id) (all_image_urls rank w))"
proof -
  have one: "session_get env (requests_sent (trace w)) (api_url a image_id) (api_headers t)
            = Response 429 body \<longrightarrow>
          get_cloudflare_metadata env image_id w
            = (Inr JNull, emit (Sleep 5) (emit (HttpGet (api_url a image_id)) w))"
    using assms by (simp add: get_cloudflare_metadata_def Let_def)
  have bound: "count_list (drop (length (trace w))
                      (trace (snd (batches_loop env h (all_image_urls rank w) 0 w))))
            (HttpGet (api_url a image_id))
          \<le> length (filter (\<lambda>u. extract_image_id env u = Some image_id) (all_image_urls rank w))"
    for h
  proof -
    from batches_loop_requests [OF assms(1), of h "all_image_urls rank w" 0 w image_id]
    obtain new where
      "trace (snd (batches_loop env h (all_image_urls rank w) 0 w)) = trace w @ new"
      "count_list (requested new) (api_url a image_id)
         \<le> length (filter (\<lambda>u. extract_image_id env u = Some image_id) (all_image_urls rank w))"
      by auto
    then show ?thesis
      by (simp add: requested_count)
  qed
  from bound [of MongoClient]
  have "count_list (drop (length (trace w)) (trace (migrate_metadata env rank w)))
            (HttpGet (api_url a image_id))
          \<le> length (filter (\<lambda>u. extract_image_id env u = Some image_id) (all_image_urls rank w))"
    by (simp add: migrate_metadata_def)
  with one bound [of db] show ?thesis
    by (simp add: distinct_all_image_urls)
qed

theorem rate_limited_fetch_not_retried_witness:
  "get_cloudflare_metadata example_env ''img3'' empty_db
     = (Inr JNull, empty_db\<lparr>trace := [HttpGet (api_url ''acct'' ''img3''), Sleep 5]\<rparr>)
   \<and> count_list (trace (migrate_metadata example_env arrival_order sample_db))
         (HttpGet (api_url ''acct'' ''img3'')) \<le> 1"
proof -
  have one: "length (filter (\<lambda>u. extract_image_id example_env u = Some ''img3'')
                       (all_image_urls arrival_order sample_db)) = 1"
    by code_simp
  have start: "trace sample_db = []"
    by (simp add: sample_db_def)
  from rate_limited_fetch_not_retried
         [of example_env "''acct''" "''tok''" sample_db "''img3''" None arrival_order] one start
  have run: "count_list (trace (migrate_metadata example_env arrival_order sample_db))
         (HttpGet (api_url ''acct'' ''img3'')) \<le> 1"
    by (simp add: example_env_def)
  from rate_limited_fetch_not_retried
         [of example_env "''acct''" "''tok''" empty_db "''img3''" None arrival_order]
  have "get_cloudflare_metadata example_env ''img3'' empty_db
     = (Inr JNull, empty_db\<lparr>trace := [HttpGet (api_url ''acct'' ''img3''), Sleep 5]\<rparr>)"
    by (simp add: example_env_def example_api_def api_url_def emit_def empty_db_def)
  with run show ?thesis by simp
qed

text \<open>
  C9. A run leaves the parent records as they were, and the metadata collection after
  the run is the collection before it followed by the inserted documents: the records
  that were there are still there, unchanged and in place.
\<close>

theorem migration_only_inserts:
  "cars (migrate_metadata env rank w) = cars w
   \<and> (\<exists>docs. image_metadata (migrate_metadata env rank w) = image_metadata w @ docs)"
  using batches_loop_frame [of env MongoClient "all_image_urls rank w" 0 w]
  by (auto simp: migrate_metadata_def)

text \<open>
  C10. As stated, the property fails: a 200 answer with a true success flag whose result
  is null carries no metadata under its result either, and there the lookup in the
  result raises; the fetcher returns \<open>JNull\<close>, not the empty mapping.
\<close>

theorem null_result_yields_nothing:
  "session_get example_env 0 (api_url ''acct'' ''img5'') (api_headers ''tok'')
     = Response 200 (Some (JObj [(''success'', JBool True), (''result'', JNull)]))
   \<and> fst (get_cloudflare_metadata example_env ''img5'' empty_db) = Inr JNull
   \<and> fst (get_cloudflare_metadata example_env ''img5'' empty_db) \<noteq> Inr (JObj [])"
  by code_simp

text \<open>
  C10, amended. A 200 answer with a true success flag whose result key is missing, or
  whose result is a mapping without the metadata key, makes the fetcher return the empty
  mapping, not \<open>JNull\<close>. At the persistence step the empty mapping is passed over exactly
  as \<open>JNull\<close> is, and a batch made of one such URL leaves the collection as it was.
\<close>

theorem missing_metadata_is_not_stored:
  assumes "CLOUDFLARE_ACCOUNT_ID env = Some a" and "a \<noteq> []"
      and "CLOUDFLARE_API_TOKEN env = Some t" and "t \<noteq> []"
      and "session_get env (requests_sent (trace w)) (api_url a image_id) (api_headers t)
             = Response 200 (Some (JObj data))"
      and "map_of data ''success'' = Some flag" and "truthy flag"
      and "map_of data ''result'' = None
           \<or> (\<exists>result. map_of data ''result'' = Some (JObj result)
                 \<and> map_of result ''metadata'' = None)"
  shows "fst (get_cloudflare_metadata env image_id w) = Inr (JObj [])
       \<and> store_results env db ((u, JObj []) # rest) w' = store_results env db rest w'
       \<and> store_results env db ((u, JNull) # rest) w' = store_results env db rest w'
       \<and> (extract_image_id env u = Some image_id \<and> image_id \<noteq> []
            \<and> find_one (image_metadata w) image_id = None \<longrightarrow>
          image_metadata (snd (process_batch env db [u] w)) = image_metadata w)"
proof -
  have rm: "read_metadata (Some (JObj data)) = JObj []"
    using assms(6-8) by (auto simp: read_metadata_def)
  have f: "get_cloudflare_metadata env image_id w
             = (Inr (JObj []), emit (HttpGet (api_url a image_id)) w)"
    using assms(1-5) rm by (simp add: get_cloudflare_metadata_def Let_def)
  have "image_metadata (snd (process_batch env db [u] w)) = image_metadata w"
    if "extract_image_id env u = Some image_id" "image_id \<noteq> []"
       "find_one (image_metadata w) image_id = None"
  proof (cases db)
    case Awaitable
    with that f show ?thesis by (simp add: process_batch_def)
  next
    case Synchronous
    then show ?thesis by (simp add: process_batch_synchronous)
  qed
  with f show ?thesis by simp
qed

theorem missing_metadata_is_not_stored_witness:
  "fst (get_cloudflare_metadata example_env ''img4'' empty_db) = Inr (JObj [])
   \<and> image_metadata (snd (process_batch example_env Awaitable [delivery_url ''img4''] empty_db)) = []"
  using missing_metadata_is_not_stored
          [of example_env "''acct''" "''tok''" empty_db "''img4''"
              "[(''success'', JBool True), (''result'', JObj [])]" "JBool True"
              Awaitable "delivery_url ''img4''" "[]" empty_db]
  by (simp add: example_env_def example_api_def example_urlparse_def api_url_def empty_db_def
        delivery_url_def extract_image_id_def find_one_def)

text \<open>
  C6. The driver runs its loop on the synchronous handle it has made. With seven image
  URLs that have identifiers, the first batch raises at its first lookup, the exception
  ends the loop, and the run is over before any delay: no batch is completed, and the
  trace has no sleep where the schedule has two.
\<close>

theorem seven_urls_run_has_no_delay:
  "all_image_urls arrival_order seven_images_db = seven_urls
   \<and> map length (consecutive_batches BATCH_SIZE seven_urls) = [3, 3, 1]
   \<and> batches_loop example_env MongoClient seven_urls 0 seven_images_db
       = (Inl TypeError, seven_images_db)
   \<and> trace (migrate_metadata example_env arrival_order seven_images_db) = []"
  by code_simp

text \<open>
  C3. The driver runs its loop on the synchronous handle it has made. With two images for
  which the API has metadata, each run raises at the first lookup of its first batch: no
  request is sent, the first run leaves the state as it was, and after the second run the
  collection is still empty, where one record for each identifier is expected.
\<close>

theorem rerun_leaves_no_record:
  "all_image_urls arrival_order two_images_db = [delivery_url ''img1'', delivery_url ''img2'']
   \<and> answer_for example_env ''img1'' = JObj [(''title'', JStr ''one'')]
   \<and> answer_for example_env ''img2'' = JObj [(''title'', JStr ''two'')]
   \<and> migrate_metadata example_env arrival_order two_images_db = two_images_db
   \<and> image_metadata (migrate_metadata example_env arrival_order
                       (migrate_metadata example_env arrival_order two_images_db)) = []"
  by code_simp

text \<open>
  C1. A URL that is passed over shifts the results: the batch is zipped with the results
  of the tasks, which are fewer. Here the first URL has no identifier, the second is
  fetched, and its metadata is stored under the identifier of the first, which is none.
\<close>

theorem skipped_url_misplaces_result:
  "extract_image_id example_env ''/images/front.jpg'' = None
   \<and> extract_image_id example_env (delivery_url ''img2'') = Some ''img2''
   \<and> answer_for example_env ''img2'' = JObj [(''title'', JStr ''two'')]
   \<and> image_metadata (snd (process_batch example_env Awaitable
                            [''/images/front.jpg'', delivery_url ''img2''] empty_db))
       = [[(''imageId'', JNull), (''title'', JStr ''two''),
           (''createdAt'', JNum 1700000000), (''updatedAt'', JNum 1700000001)]]"
  by code_simp

text \<open>
  C2. The same shift gives a record to a URL whose own fetch returned nothing. The first
  URL has a record already and is passed over; the fetch of the second is rate limited and
  yields nothing; the metadata of the third is stored under the identifier of the second.
  Two requests are sent for the three URLs.
\<close>

theorem failed_fetch_gets_record:
  "answer_for example_env ''img3'' = JNull
   \<and> requested (trace (snd (process_batch example_env Awaitable
        [delivery_url ''img1'', delivery_url ''img3'', delivery_url ''img2'']
        (empty_db\<lparr>image_metadata := [[(''imageId'', JStr ''img1'')]]\<rparr>))))
       = [api_url ''acct'' ''img3'', api_url ''acct'' ''img2'']
   \<and> image_metadata (snd (process_batch example_env Awaitable
        [delivery_url ''img1'', delivery_url ''img3'', delivery_url ''img2'']
        (empty_db\<lparr>image_metadata := [[(''imageId'', JStr ''img1'')]]\<rparr>)))
       = [[(''imageId'', JStr ''img1'')],
          [(''imageId'', JStr ''img3''), (''title'', JStr ''two''),
           (''createdAt'', JNum 1700000000), (''updatedAt'', JNum 1700000001)]]"
  by code_simp

end
